theory Spec2Isabelle
  imports Main "HOL-Library.Char_ord" "HOL-Library.List_Lexorder"
begin

section \<open>Characters and strings of the C++ runtime\<close>

text \<open>
  A \<open>std::string\<close> is a list of bytes. The program never calls \<open>setlocale\<close>, so
  \<open>isspace\<close> and \<open>tolower\<close> are those of the "C" locale, and the class \<open>\s\<close> of
  \<open>std::regex\<close> is the same set of six characters.
\<close>

abbreviation nl :: char where "nl \<equiv> CHR 0x0A"
abbreviation cr :: char where "cr \<equiv> CHR 0x0D"
abbreviation dq :: char where "dq \<equiv> CHR 0x22"
abbreviation bsl :: char where "bsl \<equiv> CHR 0x5C"

definition isspace :: "char \<Rightarrow> bool" where
  "isspace c = (c = CHR '' '' \<or> (CHR 0x09 \<le> c \<and> c \<le> CHR 0x0D))"

definition isdigit :: "char \<Rightarrow> bool" where
  "isdigit c = (CHR ''0'' \<le> c \<and> c \<le> CHR ''9'')"

definition isupper :: "char \<Rightarrow> bool" where
  "isupper c = (CHR ''A'' \<le> c \<and> c \<le> CHR ''Z'')"

definition islower :: "char \<Rightarrow> bool" where
  "islower c = (CHR ''a'' \<le> c \<and> c \<le> CHR ''z'')"

definition tolower :: "char \<Rightarrow> char" where
  "tolower c = (if isupper c then char_of (of_char c + (32::nat)) else c)"

text \<open>The two trimming loops: erase from the front, pop from the back.\<close>

fun ltrim :: "string \<Rightarrow> string" where
  "ltrim [] = []"
| "ltrim (c # cs) = (if isspace c then ltrim cs else c # cs)"

definition rtrim :: "string \<Rightarrow> string" where
  "rtrim s = rev (ltrim (rev s))"

text \<open>\<open>t.rfind(p, 0) == 0\<close>: the string \<open>t\<close> starts with \<open>p\<close>.\<close>

definition starts_with :: "string \<Rightarrow> string \<Rightarrow> bool" where
  "starts_with p t = (take (length p) t = p)"

text \<open>\<open>s.find(c)\<close>; \<open>None\<close> is \<open>string::npos\<close>.\<close>

fun find_char :: "char \<Rightarrow> string \<Rightarrow> nat option" where
  "find_char c [] = None"
| "find_char c (x # xs) = (if x = c then Some 0 else map_option Suc (find_char c xs))"

text \<open>
  The exceptions of the standard library that the program can meet: \<open>substr\<close> throws
  \<open>std::out_of_range\<close> when the position is beyond the end; \<open>stoll\<close> throws
  \<open>std::invalid_argument\<close> or \<open>std::out_of_range\<close>.
\<close>

datatype exn = Invalid_argument | Out_of_range

definition substr :: "string \<Rightarrow> nat \<Rightarrow> nat \<Rightarrow> exn + string" where
  "substr s pos n = (if pos > length s then Inl Out_of_range else Inr (take n (drop pos s)))"

definition substr_from :: "string \<Rightarrow> nat \<Rightarrow> exn + string" where
  "substr_from s pos = (if pos > length s then Inl Out_of_range else Inr (drop pos s))"

text \<open>
  Reading a stream with \<open>getline\<close> until it fails: the text is cut at every newline,
  and a last line without a newline is still returned when it is not empty.
\<close>

fun split_lines :: "string \<Rightarrow> string \<Rightarrow> string list" where
  "split_lines cur [] = (if cur = [] then [] else [cur])"
| "split_lines cur (c # cs) =
     (if c = nl then cur # split_lines [] cs else split_lines (cur @ [c]) cs)"

definition getlines :: "string \<Rightarrow> string list" where
  "getlines s = split_lines [] s"

section \<open>\<open>std::map\<close> with string keys\<close>

text \<open>
  A \<open>std::map<string, V>\<close> is kept as the list of its entries in iteration order,
  that is in ascending order of the keys (bytewise lexicographic, a proper prefix
  first). \<open>map_assign k v m\<close> is \<open>m[k] = v\<close>; a lookup (\<open>count\<close>, then \<open>m[k]\<close>) is
  \<open>map_of m k\<close>.
\<close>

type_synonym 'v std_map = "(string \<times> 'v) list"

fun map_assign :: "string \<Rightarrow> 'v \<Rightarrow> 'v std_map \<Rightarrow> 'v std_map" where
  "map_assign k v [] = [(k, v)]"
| "map_assign k v ((k', v') # m) =
     (if k < k' then (k, v) # (k', v') # m
      else if k = k' then (k, v) # m
      else (k', v') # map_assign k v m)"

section \<open>The two regular expressions\<close>

text \<open>
  An \<open>smatch\<close> is the list of its sub-matches, the whole match first; after a failed
  search it is empty (\<open>size() == 0\<close>). \<open>m[n]\<close> converted to a string is the matched
  text, and the empty string for a group that did not take part or an index beyond
  \<open>size()\<close>.
\<close>

type_synonym smatch = "string option list"

definition sub_str :: "smatch \<Rightarrow> nat \<Rightarrow> string" where
  "sub_str m n = (if n < length m then (case m ! n of Some s \<Rightarrow> s | None \<Rightarrow> []) else [])"

text \<open>
  The two searches are modelled where the library returns from them: the functions
  below give the sub-matches of a finished search. The matcher of the library works
  with a depth that grows with the subject, and on a very long value it may end the
  process or throw \<open>std::regex_error\<close>; the model has no such outcome, and no statement
  below is about it.
\<close>

text \<open>In an ECMAScript regex \<open>.\<close> matches every character but the line terminators.\<close>

definition dot_char :: "char \<Rightarrow> bool" where
  "dot_char c = (c \<noteq> nl \<and> c \<noteq> cr)"

text \<open>
  \<open>regex_search(val, m, bracket_regex)\<close> for the pattern \<^verbatim>\<open>\[(.*)\]\<close>: the leftmost
  \<open>[\<close> that is followed, before any line terminator, by a \<open>]\<close>; the star is greedy, so
  the group runs up to the last such \<open>]\<close>.
\<close>

fun upto_last_close :: "string \<Rightarrow> string option" where
  "upto_last_close [] = None"
| "upto_last_close (c # cs) =
     (case upto_last_close cs of
        Some g \<Rightarrow> Some (c # g)
      | None \<Rightarrow> if c = CHR '']'' then Some [] else None)"

fun bracket_regex_search :: "string \<Rightarrow> smatch" where
  "bracket_regex_search [] = []"
| "bracket_regex_search (c # cs) =
     (if c = CHR ''[''
      then (case upto_last_close (takeWhile dot_char cs) of
              Some g \<Rightarrow> [Some (CHR ''['' # g @ '']''), Some g]
            | None \<Rightarrow> bracket_regex_search cs)
      else bracket_regex_search cs)"

text \<open>
  \<open>regex_search(val, m, num_unit_regex)\<close> for the pattern
  \<^verbatim>\<open>^\s*([-+]?[0-9,]+)(?:\s*([A-Za-z%.]+))?\<close>. The pattern is anchored at the start
  and each of its pieces is followed by a piece that starts with a different class
  of characters, so the greedy match is the only one: spaces, an optional sign, the
  longest run of digits and commas (one at least), and then, if spaces followed by a
  letter, \<open>%\<close> or \<open>.\<close> come next, the longest run of those.
\<close>

definition num_char :: "char \<Rightarrow> bool" where
  "num_char c = (isdigit c \<or> c = CHR '','')"

definition unit_char :: "char \<Rightarrow> bool" where
  "unit_char c = (isupper c \<or> islower c \<or> c = CHR ''%'' \<or> c = CHR ''.'')"

definition sign_of :: "string \<Rightarrow> string" where
  "sign_of s = (case s of [] \<Rightarrow> [] | c # _ \<Rightarrow> if c = CHR ''-'' \<or> c = CHR ''+'' then [c] else [])"

definition num_unit_regex_search :: "string \<Rightarrow> smatch" where
  "num_unit_regex_search val =
     (let ws = takeWhile isspace val; r1 = dropWhile isspace val;
          sg = sign_of r1; r2 = drop (length sg) r1;
          ds = takeWhile num_char r2; r3 = dropWhile num_char r2;
          sp = takeWhile isspace r3; r4 = dropWhile isspace r3;
          u = takeWhile unit_char r4
      in if ds = [] then []
         else if u = [] then [Some (ws @ sg @ ds), Some (sg @ ds), None]
         else [Some (ws @ sg @ ds @ sp @ u), Some (sg @ ds), Some u])"

section \<open>\<open>stoll\<close>\<close>

text \<open>
  \<open>std::stoll(s)\<close> is \<open>strtoll\<close> in base 10: it skips white space, reads an optional
  sign and the longest run of digits, throws \<open>invalid_argument\<close> when there is no
  digit and \<open>out_of_range\<close> when the number does not fit a \<open>long long\<close>.
\<close>

definition digit_val :: "char \<Rightarrow> int" where
  "digit_val c = int (of_char c) - 48"

definition dec_val :: "string \<Rightarrow> int" where
  "dec_val ds = foldl (\<lambda>a c. 10 * a + digit_val c) 0 ds"

definition LLONG_MAX :: int where "LLONG_MAX = 9223372036854775807"
definition LLONG_MIN :: int where "LLONG_MIN = - 9223372036854775808"

definition stoll :: "string \<Rightarrow> exn + int" where
  "stoll s =
     (let r = ltrim s; sg = sign_of r;
          ds = takeWhile isdigit (drop (length sg) r);
          v = (if sg = ''-'' then - dec_val ds else dec_val ds)
      in if ds = [] then Inl Invalid_argument
         else if v < LLONG_MIN \<or> LLONG_MAX < v then Inl Out_of_range
         else Inr v)"

section \<open>\<open>parse_nvme_section\<close>\<close>

record Field =
  raw :: string
  unit :: string
  has_num :: bool
  num :: int

text \<open>
  \<open>num.erase(remove(num.begin(), num.end(), ','), num.end())\<close> followed by the
  \<open>try { f.num = stoll(num); f.has_num = true; } catch (...) { f.has_num = false; }\<close>.
\<close>

definition strip_commas :: "string \<Rightarrow> string" where
  "strip_commas s = filter (\<lambda>c. c \<noteq> CHR '','') s"

definition try_stoll :: "Field \<Rightarrow> string \<Rightarrow> Field" where
  "try_stoll f n =
     (case stoll n of
        Inr v \<Rightarrow> f\<lparr>num := v, has_num := True\<rparr>
      | Inl e \<Rightarrow> f\<lparr>has_num := False\<rparr>)"

text \<open>
  Lines 106 to 122: the field of one value. The one \<open>smatch m\<close> is written by both
  searches, so in the bracket branch \<open>m[1]\<close> is read from the second search, matched
  or not.
\<close>

definition decompose :: "string \<Rightarrow> Field" where
  "decompose val =
     (let f = \<lparr>raw = val, unit = [], has_num = False, num = 0\<rparr>;
          m = bracket_regex_search val
      in if m \<noteq> []
         then (let m = num_unit_regex_search val;
                   f = (if m \<noteq> [] then try_stoll f (strip_commas (sub_str m 1)) else f)
               in f\<lparr>unit := sub_str m 1\<rparr>)
         else (let m = num_unit_regex_search val
               in if m \<noteq> []
                  then (let f = try_stoll f (strip_commas (sub_str m 1))
                        in if length m > 2 then f\<lparr>unit := sub_str m 2\<rparr> else f)
                  else f))"

text \<open>
  The key: \<open>transform\<close> with \<open>tolower(c == ' ' ? '_' : c)\<close>, then the loop that
  replaces the spaces that are left.
\<close>

definition normalize_key :: "string \<Rightarrow> string" where
  "normalize_key key =
     map (\<lambda>c. if c = CHR '' '' then CHR ''_'' else c)
       (map (\<lambda>c. tolower (if c = CHR '' '' then CHR ''_'' else c)) key)"

definition trim :: "string \<Rightarrow> string" where
  "trim s = rtrim (ltrim s)"

definition nvme_line :: "Field std_map \<Rightarrow> string \<Rightarrow> exn + Field std_map" where
  "nvme_line out l =
     (case find_char CHR '':'' l of
        None \<Rightarrow> Inr out
      | Some p \<Rightarrow>
          (case substr l 0 p of
             Inl e \<Rightarrow> Inl e
           | Inr key \<Rightarrow>
               (case substr_from l (p + 1) of
                  Inl e \<Rightarrow> Inl e
                | Inr val \<Rightarrow>
                    Inr (map_assign (normalize_key (trim key)) (decompose (trim val)) out))))"

fun nvme_loop :: "Field std_map \<Rightarrow> string list \<Rightarrow> exn + Field std_map" where
  "nvme_loop out [] = Inr out"
| "nvme_loop out (l # ls) =
     (case nvme_line out l of Inl e \<Rightarrow> Inl e | Inr out' \<Rightarrow> nvme_loop out' ls)"

definition parse_nvme_section :: "string list \<Rightarrow> exn + Field std_map" where
  "parse_nvme_section lines = nvme_loop [] lines"

section \<open>The JSON emitter\<close>

definition hex_digit :: "nat \<Rightarrow> char" where
  "hex_digit n = (if n < 10 then char_of (48 + n) else char_of (87 + n))"

text \<open>\<open>snprintf(buf, sizeof(buf), "\\u%04x", c)\<close> for a byte \<open>c\<close>.\<close>

definition u_escape :: "char \<Rightarrow> string" where
  "u_escape c =
     (let n = (of_char c :: nat)
      in [bsl, CHR ''u'', hex_digit (n div 4096 mod 16), hex_digit (n div 256 mod 16),
          hex_digit (n div 16 mod 16), hex_digit (n mod 16)])"

definition escape_char :: "char \<Rightarrow> string" where
  "escape_char c =
     (if c = dq then [bsl, dq]
      else if c = bsl then [bsl, bsl]
      else if c = CHR 0x08 then [bsl, CHR ''b'']
      else if c = CHR 0x0C then [bsl, CHR ''f'']
      else if c = nl then [bsl, CHR ''n'']
      else if c = cr then [bsl, CHR ''r'']
      else if c = CHR 0x09 then [bsl, CHR ''t'']
      else if c < CHR 0x20 then u_escape c
      else [c])"

definition json_escape :: "string \<Rightarrow> string" where
  "json_escape s = concat (map escape_char s)"

text \<open>\<open>js << n\<close> for a \<open>long long\<close>: the decimal digits, after a minus sign if negative.\<close>

fun string_of_nat :: "nat \<Rightarrow> string" where
  "string_of_nat n =
     (if n < 10 then [char_of (48 + n)]
      else string_of_nat (n div 10) @ [char_of (48 + n mod 10)])"

declare string_of_nat.simps [simp del]

definition string_of_int :: "int \<Rightarrow> string" where
  "string_of_int i = (if i < 0 then CHR ''-'' # string_of_nat (nat (- i)) else string_of_nat (nat i))"

text \<open>A string between double quotes.\<close>

definition quoted :: "string \<Rightarrow> string" where
  "quoted s = [dq] @ s @ [dq]"

text \<open>
  The stream \<open>js\<close> and the flag \<open>first\<close> are the state of the emitter;
  \<open>add_comma\<close> is the lambda of that name.
\<close>

definition add_comma :: "string \<times> bool \<Rightarrow> string \<times> bool" where
  "add_comma st = (case st of (js, first) \<Rightarrow> (if \<not> first then js @ '','' else js, False))"

definition kv_member :: "string \<Rightarrow> string \<Rightarrow> string" where
  "kv_member k v = [nl] @ ''  '' @ quoted (json_escape k) @ '': '' @ quoted (json_escape v)"

fun json_kv :: "string \<times> bool \<Rightarrow> string std_map \<Rightarrow> string \<times> bool" where
  "json_kv st [] = st"
| "json_kv st ((k, v) # ps) =
     (case add_comma st of (js, first) \<Rightarrow> json_kv (js @ kv_member k v, first) ps)"

definition nvme_entry :: "string \<Rightarrow> Field \<Rightarrow> string" where
  "nvme_entry k f =
     [nl] @ ''    '' @ quoted (json_escape k) @ '': {''
     @ [nl] @ ''      '' @ quoted ''raw'' @ '': '' @ quoted (json_escape (raw f))
     @ (if has_num f then '','' @ [nl] @ ''      '' @ quoted ''value'' @ '': '' @ string_of_int (num f)
        else [])
     @ (if unit f \<noteq> []
        then '','' @ [nl] @ ''      '' @ quoted ''unit'' @ '': '' @ quoted (json_escape (unit f))
        else [])
     @ [nl] @ ''    }''"

fun json_nvme :: "string \<times> bool \<Rightarrow> Field std_map \<Rightarrow> string \<times> bool" where
  "json_nvme st [] = st"
| "json_nvme st ((k, f) # ns) =
     (case st of (js, f2) \<Rightarrow>
        json_nvme ((if \<not> f2 then js @ '','' else js) @ nvme_entry k f, False) ns)"

definition nvme_health_open :: string where
  "nvme_health_open = [nl] @ ''  '' @ quoted ''nvme_health'' @ '': {''"

definition raw_member :: string where
  "raw_member = [nl] @ ''  '' @ quoted ''raw'' @ '': '' @ quoted ''REDACTED_RAW_NOT_INCL_IF_NOT_REQUESTED''"

definition build_json_from_parsed :: "string std_map \<Rightarrow> Field std_map \<Rightarrow> bool \<Rightarrow> string" where
  "build_json_from_parsed m nvme incl =
     (let st = json_kv (''{'', True) m;
          st = (if nvme \<noteq> []
                then (case add_comma st of (js, first) \<Rightarrow>
                        (fst (json_nvme (js @ nvme_health_open, True) nvme) @ [nl] @ ''  }'', first))
                else st);
          st = (if incl
                then (case add_comma st of (js, first) \<Rightarrow> (js @ raw_member, first))
                else st)
      in fst st @ [nl] @ ''}'' @ [nl])"

section \<open>Discovery\<close>

text \<open>
  The environment of the program is the function \<open>exec_capture\<close>: the output that
  \<open>popen\<close> gives for a command line (the empty string when the process cannot be
  started).
\<close>

type_synonym env = "string \<Rightarrow> string"

definition find_smartctl :: "env \<Rightarrow> string" where
  "find_smartctl exec_capture =
     (let p = exec_capture ''command -v smartctl 2>/dev/null''
      in if p \<noteq> []
         then rev (dropWhile (\<lambda>c. c = nl \<or> c = cr \<or> isspace c) (rev p))
         else [])"

text \<open>\<open>ls >> token\<close>: the first run of characters that are not white space.\<close>

definition first_token :: "string \<Rightarrow> string" where
  "first_token line = takeWhile (\<lambda>c. \<not> isspace c) (ltrim line)"

fun devices_loop :: "string list \<Rightarrow> string list \<Rightarrow> string list" where
  "devices_loop devs [] = devs"
| "devices_loop devs (line # ls) =
     (if line = [] then devices_loop devs ls
      else (let token = first_token line
            in if token \<noteq> [] then devices_loop (devs @ [token]) ls
               else devices_loop devs ls))"

definition list_devices :: "env \<Rightarrow> string \<Rightarrow> string list" where
  "list_devices exec_capture smartctl = devices_loop [] (getlines (exec_capture (smartctl @ '' --scan'')))"

definition run_smartctl :: "env \<Rightarrow> string \<Rightarrow> string \<Rightarrow> string" where
  "run_smartctl exec_capture smartctl dev = exec_capture (smartctl @ '' -a '' @ dev @ '' 2>&1'')"

section \<open>The report parser of \<open>main\<close>\<close>

record pstate =
  kv :: "string std_map"
  nvme_lines :: "string list"
  in_nvme :: bool

text \<open>
  \<open>auto p = t.find(':'); kv[k] = t.substr(p+1); rtrim(kv[k]); ltrim(kv[k]);\<close> When
  there is no colon, \<open>p\<close> is \<open>npos\<close> and \<open>p+1\<close> wraps to 0.
\<close>

definition set_identity :: "string \<Rightarrow> string \<Rightarrow> pstate \<Rightarrow> exn + pstate" where
  "set_identity k t st =
     (case substr_from t (case find_char CHR '':'' t of None \<Rightarrow> 0 | Some p \<Rightarrow> p + 1) of
        Inl e \<Rightarrow> Inl e
      | Inr v \<Rightarrow> Inr (st\<lparr>kv := map_assign k (ltrim (rtrim v)) (kv st)\<rparr>))"

text \<open>The body of the \<open>while (getline(ss, line))\<close> loop, lines 201 to 228.\<close>

definition scan_line :: "pstate \<Rightarrow> string \<Rightarrow> exn + pstate" where
  "scan_line st line =
     (let t = rtrim (ltrim line)
      in if t = [] then Inr st
         else if starts_with ''Device Model:'' t \<or> starts_with ''Model Number:'' t
              then set_identity ''model'' t st
         else if starts_with ''Serial Number:'' t then set_identity ''serial'' t st
         else if starts_with ''Firmware Version:'' t then set_identity ''firmware'' t st
         else if starts_with ''SMART/Health Information'' t then Inr (st\<lparr>in_nvme := True\<rparr>)
         else if in_nvme st
              then (if starts_with ''Error Information'' t \<or> starts_with ''Self-test Log'' t
                       \<or> starts_with ''==='' t
                    then Inr (st\<lparr>in_nvme := False\<rparr>)
                    else Inr (st\<lparr>nvme_lines := nvme_lines st @ [t]\<rparr>))
         else Inr st)"

fun report_loop :: "pstate \<Rightarrow> string list \<Rightarrow> exn + pstate" where
  "report_loop st [] = Inr st"
| "report_loop st (line # ls) =
     (case scan_line st line of Inl e \<Rightarrow> Inl e | Inr st' \<Rightarrow> report_loop st' ls)"

text \<open>
  Lines 193 to 231 of \<open>main\<close>, from the captured report to the two maps that the
  emitters read: the identity fields \<open>kv\<close> and the NVMe attributes.
\<close>

definition parse_report :: "string \<Rightarrow> exn + (string std_map \<times> Field std_map)" where
  "parse_report out =
     (case report_loop \<lparr>kv = [], nvme_lines = [], in_nvme = False\<rparr> (getlines out) of
        Inl e \<Rightarrow> Inl e
      | Inr st \<Rightarrow>
          (case parse_nvme_section (nvme_lines st) of
             Inl e \<Rightarrow> Inl e
           | Inr nvme \<Rightarrow> Inr (kv st, nvme)))"

section \<open>\<open>main\<close>\<close>

record options =
  list_mode :: bool
  device :: string
  json_out :: bool
  include_raw :: bool

text \<open>
  The loop over \<open>argv[1..]\<close>. \<open>None\<close> is the \<open>return 0\<close> of the help option, taken
  inside the loop after the usage line is printed. \<open>--device\<close> takes the next
  argument when there is one (\<open>i+1 < argc\<close>, then \<open>argv[++i]\<close>).
\<close>

definition init_options :: options where
  "init_options = \<lparr>list_mode = False, device = [], json_out = False, include_raw = False\<rparr>"

fun scan_args :: "options \<Rightarrow> string list \<Rightarrow> options option" where
  "scan_args opts [] = Some opts"
| "scan_args opts (a # rest) =
     (if a = ''--list'' then scan_args (opts\<lparr>list_mode := True\<rparr>) rest
      else if a = ''--json'' then scan_args (opts\<lparr>json_out := True\<rparr>) rest
      else if a = ''--include-raw'' then scan_args (opts\<lparr>include_raw := True\<rparr>) rest
      else if a = ''--device'' \<and> rest \<noteq> []
           then scan_args (opts\<lparr>device := hd rest\<rparr>) (tl rest)
      else if a = ''-h'' \<or> a = ''--help'' then None
      else scan_args opts rest)"

definition usage :: string where
  "usage = ''Usage: smart_info [--list] [--device /dev/sda] [--json] [--include-raw]'' @ [nl]"

text \<open>
  What a run leaves behind: the text on standard output, the text on standard error,
  and how it ended, by \<open>return n\<close> or by an exception that nothing catches.
\<close>

datatype ending = Exit nat | Uncaught exn

record outcome =
  to_cout :: string
  to_cerr :: string
  ended :: ending

fun devices_json :: "nat \<Rightarrow> string list \<Rightarrow> string" where
  "devices_json i [] = []"
| "devices_json i (d # ds) =
     (if i \<noteq> 0 then '','' else []) @ [nl] @ ''    '' @ quoted (json_escape d)
     @ devices_json (Suc i) ds"

definition list_text :: "bool \<Rightarrow> string list \<Rightarrow> string" where
  "list_text js devs =
     (if js then ''{'' @ [nl] @ ''  '' @ quoted ''devices'' @ '': ['' @ devices_json 0 devs
                 @ [nl] @ ''  ]'' @ [nl] @ ''}'' @ [nl]
      else concat (map (\<lambda>d. d @ [nl]) devs))"

definition or_na :: "string std_map \<Rightarrow> string \<Rightarrow> string" where
  "or_na m k = (case map_of m k of Some v \<Rightarrow> v | None \<Rightarrow> ''n/a'')"

definition plain_text :: "string \<Rightarrow> string std_map \<Rightarrow> Field std_map \<Rightarrow> string" where
  "plain_text dev m nvme =
     ''Device: '' @ dev @ [nl]
     @ ''Model: '' @ or_na m ''model'' @ [nl]
     @ ''Serial: '' @ or_na m ''serial'' @ [nl]
     @ ''Firmware: '' @ or_na m ''firmware'' @ [nl]
     @ (if nvme \<noteq> []
        then [nl] @ ''NVMe SMART/Health:'' @ [nl]
             @ concat (map (\<lambda>n. fst n @ '': '' @ raw (snd n) @ [nl]) nvme)
        else [])"

definition main :: "env \<Rightarrow> string list \<Rightarrow> outcome" where
  "main exec_capture args =
     (case scan_args init_options args of
        None \<Rightarrow> \<lparr>to_cout = usage, to_cerr = [], ended = Exit 0\<rparr>
      | Some opts \<Rightarrow>
          (let smartctl = find_smartctl exec_capture
           in if smartctl = []
              then \<lparr>to_cout = [], to_cerr = ''smartctl not found. Install smartmontools.'' @ [nl],
                    ended = Exit 2\<rparr>
              else if list_mode opts
              then \<lparr>to_cout = list_text (json_out opts) (list_devices exec_capture smartctl),
                    to_cerr = [], ended = Exit 0\<rparr>
              else if device opts = []
              then \<lparr>to_cout = [], to_cerr = ''Please specify --device or --list'' @ [nl],
                    ended = Exit 2\<rparr>
              else (case parse_report (run_smartctl exec_capture smartctl (device opts)) of
                      Inl e \<Rightarrow> \<lparr>to_cout = [], to_cerr = [], ended = Uncaught e\<rparr>
                    | Inr (m, nvme) \<Rightarrow>
                        \<lparr>to_cout = (if json_out opts
                                     then build_json_from_parsed m nvme (include_raw opts)
                                     else plain_text (device opts) m nvme),
                         to_cerr = [], ended = Exit 0\<rparr>)))"

section \<open>Notions of the statements\<close>

text \<open>
  The prefixes that the loop of \<open>main\<close> tests a trimmed line for: the four identity
  prefixes with the key each one stores under, and, for \<open>recognized\<close>, the marker of the
  NVMe block as well.
\<close>

definition identity_prefixes :: "(string \<times> string) list" where
  "identity_prefixes =
     [(''Device Model:'', ''model''), (''Model Number:'', ''model''),
      (''Serial Number:'', ''serial''), (''Firmware Version:'', ''firmware'')]"

definition recognized :: "string \<Rightarrow> bool" where
  "recognized t =
     (starts_with ''Device Model:'' t \<or> starts_with ''Model Number:'' t
      \<or> starts_with ''Serial Number:'' t \<or> starts_with ''Firmware Version:'' t
      \<or> starts_with ''SMART/Health Information'' t)"

text \<open>
  The arguments that the loop of \<open>main\<close> reads as options: every argument but the one
  that a \<open>--device\<close> before it takes as its operand.
\<close>

fun option_args :: "string list \<Rightarrow> string list" where
  "option_args [] = []"
| "option_args (a # rest) =
     a # (if a = ''--device'' \<and> rest \<noteq> [] then option_args (tl rest) else option_args rest)"

text \<open>
  The reading of a token as a signed integer of 64 bits, in the spec's words: an
  optional sign and then digits only, one at least; the number, when it lies between
  \<open>-2^63\<close> and \<open>2^63 - 1\<close>.
\<close>

definition int64_of_token :: "string \<Rightarrow> int option" where
  "int64_of_token s =
     (let sg = sign_of s; ds = drop (length sg) s
      in if ds \<noteq> [] \<and> list_all isdigit ds
         then (let v = (if sg = ''-'' then - dec_val ds else dec_val ds)
               in if - (2 ^ 63) \<le> v \<and> v < 2 ^ 63 then Some v else None)
         else None)"

text \<open>
  The members of a JSON object, one after the other with commas between them; the
  member of an identity field, when the field is present; the member \<open>nvme_health\<close>.
\<close>

fun comma_join :: "string list \<Rightarrow> string" where
  "comma_join [] = []"
| "comma_join [x] = x"
| "comma_join (x # y # r) = x @ '','' @ comma_join (y # r)"

definition identity_member :: "string \<Rightarrow> string std_map \<Rightarrow> string list" where
  "identity_member k m = (case map_of m k of Some v \<Rightarrow> [kv_member k v] | None \<Rightarrow> [])"

definition nvme_health_member :: "Field std_map \<Rightarrow> string" where
  "nvme_health_member nvme =
     nvme_health_open @ comma_join (map (\<lambda>(k, f). nvme_entry k f) nvme) @ [nl] @ ''  }''"

text \<open>The map \<open>kv\<close> that holds the given identity fields, in the order of its keys.\<close>

definition kv_of_fields :: "string option \<Rightarrow> string option \<Rightarrow> string option \<Rightarrow> string std_map" where
  "kv_of_fields fw mo se =
     (case fw of None \<Rightarrow> [] | Some v \<Rightarrow> [(''firmware'', v)])
     @ (case mo of None \<Rightarrow> [] | Some v \<Rightarrow> [(''model'', v)])
     @ (case se of None \<Rightarrow> [] | Some v \<Rightarrow> [(''serial'', v)])"

text \<open>
  Inputs of the examples: a report with a \<open>Firmware Version:\<close> line in the header and
  another inside the NVMe block; a report with a model and a firmware; an environment
  in which \<open>smartctl\<close> is found and every other command prints nothing.
\<close>

definition boundary_report :: string where
  "boundary_report =
     ''Firmware Version: 1B4QFXO7'' @ [nl] @ ''SMART/Health Information (NVMe Log 0x02)'' @ [nl]
     @ ''Temperature: 42 Celsius'' @ [nl] @ ''Firmware Version: 9.9.9'' @ [nl]
     @ ''Error Information (NVMe Log 0x01, 16 of 64 entries)'' @ [nl]"

definition two_field_report :: string where
  "two_field_report = ''Model Number: A'' @ [nl] @ ''Firmware Version: B'' @ [nl]"

definition host_with_smartctl :: env where
  "host_with_smartctl c =
     (if c = ''command -v smartctl 2>/dev/null'' then ''/usr/sbin/smartctl'' @ [nl] else [])"

section \<open>Key normalization\<close>

lemma of_char_tolower:
  "(of_char (tolower c) :: nat) = (if isupper c then of_char c + 32 else of_char c)"
  by (auto simp: tolower_def isupper_def less_eq_char_def)

lemma tolower_idem: "tolower (tolower c) = tolower c"
  by (auto simp: tolower_def isupper_def less_eq_char_def)

lemma not_isupper_tolower: "\<not> isupper (tolower c)"
  by (auto simp: tolower_def isupper_def less_eq_char_def)

lemma tolower_eq_space: "tolower c = CHR '' '' \<longleftrightarrow> c = CHR '' ''"
proof
  assume "tolower c = CHR '' ''"
  then have "(of_char (tolower c) :: nat) = of_char (CHR '' '')"
    by simp
  then have "(of_char c :: nat) = of_char (CHR '' '')"
    by (auto simp: of_char_tolower isupper_def less_eq_char_def split: if_splits)
  then show "c = CHR '' ''"
    by (simp only: of_char_eq_iff)
next
  assume "c = CHR '' ''"
  then show "tolower c = CHR '' ''"
    by (simp add: tolower_def isupper_def)
qed

lemma normalize_key_eq:
  "normalize_key k = map (\<lambda>c. tolower (if c = CHR '' '' then CHR ''_'' else c)) k"
  by (simp add: normalize_key_def tolower_eq_space)

text \<open>
  C8. Normalizing a key twice gives the same key as normalizing it once, and a
  normalized key holds no upper-case ASCII letter and no space.
\<close>

theorem normalize_key_idempotent:
  "normalize_key (normalize_key k) = normalize_key k
   \<and> (\<forall>c \<in> set (normalize_key k). \<not> isupper c \<and> c \<noteq> CHR '' '')"
  by (auto simp: normalize_key_eq tolower_idem tolower_eq_space not_isupper_tolower)

theorem normalize_key_idempotent_witness:
  "normalize_key ''Data Units Read'' = ''data_units_read''
   \<and> normalize_key (normalize_key ''Data Units Read'') = ''data_units_read''
   \<and> \<not> isupper (CHR ''d'') \<and> CHR ''d'' \<noteq> CHR '' ''"
proof -
  have e: "normalize_key ''Data Units Read'' = ''data_units_read''"
    by code_simp
  have m: "CHR ''d'' \<in> set (normalize_key ''Data Units Read'')"
    by (simp add: e)
  from normalize_key_idempotent [of "''Data Units Read''"] e m show ?thesis
    by auto
qed

section \<open>Where the report parser returns\<close>

text \<open>
  No \<open>substr\<close> of the parser is out of range and every \<open>stoll\<close> is caught, so with the
  searches returning the parser returns. The loop of \<open>main\<close> calls no search at all.
\<close>

lemma find_char_less: "find_char c s = Some p \<Longrightarrow> p < length s"
  by (induction s arbitrary: p) (auto split: if_splits)

lemma find_char_append: "c \<notin> set k \<Longrightarrow> find_char c (k @ c # v) = Some (length k)"
  by (induction k) auto

lemma set_identity_total:
  "\<exists>v. set_identity k t st = Inr (st\<lparr>kv := map_assign k v (kv st)\<rparr>)"
  by (auto simp: set_identity_def substr_from_def split: option.splits dest: find_char_less)

lemma scan_line_total: "\<exists>st'. scan_line st l = Inr st'"
  using set_identity_total [of _ "rtrim (ltrim l)" st]
  by (auto simp: scan_line_def Let_def)

lemma report_loop_total: "\<exists>st'. report_loop st ls = Inr st'"
proof (induction ls arbitrary: st)
  case Nil
  show ?case by simp
next
  case (Cons l ls)
  obtain st1 where "scan_line st l = Inr st1"
    using scan_line_total by blast
  with Cons [of st1] show ?case by simp
qed

lemma nvme_line_eq:
  "nvme_line out l =
     (case find_char CHR '':'' l of
        None \<Rightarrow> Inr out
      | Some p \<Rightarrow> Inr (map_assign (normalize_key (trim (take p l))) (decompose (trim (drop (Suc p) l))) out))"
  by (auto simp: nvme_line_def substr_def substr_from_def split: option.splits dest: find_char_less)

lemma nvme_line_total: "\<exists>out'. nvme_line out l = Inr out'"
  by (simp add: nvme_line_eq split: option.splits)

lemma nvme_loop_total: "\<exists>out'. nvme_loop out ls = Inr out'"
proof (induction ls arbitrary: out)
  case Nil
  show ?case by simp
next
  case (Cons l ls)
  obtain o1 where "nvme_line out l = Inr o1"
    using nvme_line_total by blast
  with Cons [of o1] show ?case by simp
qed

lemma parse_report_Inr: "\<exists>m nvme. parse_report s = Inr (m, nvme)"
proof -
  obtain st where st: "report_loop \<lparr>kv = [], nvme_lines = [], in_nvme = False\<rparr> (getlines s) = Inr st"
    using report_loop_total by blast
  obtain nv where "parse_nvme_section (nvme_lines st) = Inr nv"
    using nvme_loop_total unfolding parse_nvme_section_def by blast
  with st show ?thesis by (simp add: parse_report_def)
qed

lemma scan_line_unrecognized:
  "\<not> recognized (rtrim (ltrim l)) \<Longrightarrow> \<not> in_nvme st \<Longrightarrow> scan_line st l = Inr st"
  by (simp add: scan_line_def recognized_def Let_def)

lemma report_loop_unrecognized:
  "\<forall>l \<in> set ls. \<not> recognized (rtrim (ltrim l)) \<Longrightarrow> \<not> in_nvme st \<Longrightarrow> report_loop st ls = Inr st"
  by (induction ls) (simp_all add: scan_line_unrecognized)

section \<open>Identity fields and the state of the loop\<close>

lemma starts_withD: "starts_with p t \<Longrightarrow> t = p @ drop (length p) t"
  by (metis append_take_drop_id starts_with_def)

lemma map_of_map_assign: "map_of (map_assign k v m) = (map_of m)(k \<mapsto> v)"
  by (induction m) auto

lemma scan_line_firmware:
  assumes "starts_with ''Firmware Version:'' (rtrim (ltrim line))"
  shows "scan_line st line =
           Inr (st\<lparr>kv := map_assign ''firmware'' (ltrim (rtrim (drop 17 (rtrim (ltrim line))))) (kv st)\<rparr>)"
proof -
  obtain r where t: "rtrim (ltrim line) = ''Firmware Version:'' @ r"
    using starts_withD [OF assms] by simp
  show ?thesis
    by (simp add: scan_line_def t starts_with_def set_identity_def substr_from_def)
qed

lemma scan_line_serial:
  assumes "starts_with ''Serial Number:'' (rtrim (ltrim line))"
  shows "scan_line st line =
           Inr (st\<lparr>kv := map_assign ''serial'' (ltrim (rtrim (drop 14 (rtrim (ltrim line))))) (kv st)\<rparr>)"
proof -
  obtain r where t: "rtrim (ltrim line) = ''Serial Number:'' @ r"
    using starts_withD [OF assms] by simp
  show ?thesis
    by (simp add: scan_line_def t starts_with_def set_identity_def substr_from_def)
qed

lemma scan_line_model1:
  assumes "starts_with ''Device Model:'' (rtrim (ltrim line))"
  shows "scan_line st line =
           Inr (st\<lparr>kv := map_assign ''model'' (ltrim (rtrim (drop 13 (rtrim (ltrim line))))) (kv st)\<rparr>)"
proof -
  obtain r where t: "rtrim (ltrim line) = ''Device Model:'' @ r"
    using starts_withD [OF assms] by simp
  show ?thesis
    by (simp add: scan_line_def t starts_with_def set_identity_def substr_from_def)
qed

lemma scan_line_model2:
  assumes "starts_with ''Model Number:'' (rtrim (ltrim line))"
  shows "scan_line st line =
           Inr (st\<lparr>kv := map_assign ''model'' (ltrim (rtrim (drop 13 (rtrim (ltrim line))))) (kv st)\<rparr>)"
proof -
  obtain r where t: "rtrim (ltrim line) = ''Model Number:'' @ r"
    using starts_withD [OF assms] by simp
  show ?thesis
    by (simp add: scan_line_def t starts_with_def set_identity_def substr_from_def)
qed

lemma scan_line_identity:
  assumes "(p, k) \<in> set identity_prefixes" and "starts_with p (rtrim (ltrim line))"
  shows "scan_line st line =
           Inr (st\<lparr>kv := map_assign k (ltrim (rtrim (drop (length p) (rtrim (ltrim line))))) (kv st)\<rparr>)"
proof -
  have "p = ''Device Model:'' \<and> k = ''model'' \<or> p = ''Model Number:'' \<and> k = ''model''
        \<or> p = ''Serial Number:'' \<and> k = ''serial'' \<or> p = ''Firmware Version:'' \<and> k = ''firmware''"
    using assms(1) by (auto simp: identity_prefixes_def)
  moreover have "length ''Device Model:'' = 13" "length ''Model Number:'' = 13"
    "length ''Serial Number:'' = 14" "length ''Firmware Version:'' = 17"
    by simp_all
  ultimately show ?thesis
    using assms(2) scan_line_firmware [of line st] scan_line_serial [of line st]
      scan_line_model1 [of line st] scan_line_model2 [of line st]
    by metis
qed

lemma scan_line_keeps_firmware:
  assumes "\<not> starts_with ''Firmware Version:'' (rtrim (ltrim l))" and "scan_line st l = Inr st'"
  shows "map_of (kv st') ''firmware'' = map_of (kv st) ''firmware''"
proof -
  obtain v1 v2 where
    "set_identity ''model'' (rtrim (ltrim l)) st = Inr (st\<lparr>kv := map_assign ''model'' v1 (kv st)\<rparr>)"
    "set_identity ''serial'' (rtrim (ltrim l)) st = Inr (st\<lparr>kv := map_assign ''serial'' v2 (kv st)\<rparr>)"
    using set_identity_total by meson
  with assms show ?thesis
    by (auto simp: scan_line_def Let_def map_of_map_assign split: if_splits)
qed

lemma report_loop_keeps_firmware:
  "\<forall>l \<in> set ls. \<not> starts_with ''Firmware Version:'' (rtrim (ltrim l)) \<Longrightarrow>
   report_loop st ls = Inr st' \<Longrightarrow> map_of (kv st') ''firmware'' = map_of (kv st) ''firmware''"
proof (induction ls arbitrary: st)
  case Nil
  then show ?case by simp
next
  case (Cons l ls)
  obtain st1 where s1: "scan_line st l = Inr st1"
    using scan_line_total by blast
  with Cons.prems have "report_loop st1 ls = Inr st'"
    by simp
  with Cons.IH [of st1] Cons.prems have "map_of (kv st') ''firmware'' = map_of (kv st1) ''firmware''"
    by simp
  also have "\<dots> = map_of (kv st) ''firmware''"
    using scan_line_keeps_firmware [OF _ s1] Cons.prems by simp
  finally show ?case .
qed

lemma report_loop_append:
  "report_loop st (xs @ ys) = (case report_loop st xs of Inl e \<Rightarrow> Inl e | Inr st' \<Rightarrow> report_loop st' ys)"
  by (induction xs arbitrary: st) (auto split: sum.splits)

lemma report_loop_last_firmware:
  assumes fw: "starts_with ''Firmware Version:'' (rtrim (ltrim line))"
    and post: "\<forall>l \<in> set post. \<not> starts_with ''Firmware Version:'' (rtrim (ltrim l))"
    and run: "report_loop st (pre @ line # post) = Inr st'"
  shows "map_of (kv st') ''firmware'' = Some (ltrim (rtrim (drop 17 (rtrim (ltrim line)))))"
proof -
  obtain st1 where s1: "report_loop st pre = Inr st1"
    using report_loop_total by blast
  let ?st2 = "st1\<lparr>kv := map_assign ''firmware'' (ltrim (rtrim (drop 17 (rtrim (ltrim line))))) (kv st1)\<rparr>"
  have "report_loop ?st2 post = Inr st'"
    using run s1 scan_line_firmware [OF fw, of st1] by (simp add: report_loop_append)
  from report_loop_keeps_firmware [OF post this] show ?thesis
    by (simp add: map_of_map_assign)
qed

text \<open>
  C1, as the code has it. A line that starts with one of the identity prefixes sets
  its field in every state of the loop, inside the NVMe block too, and changes
  neither the state nor the collected NVMe lines. So the firmware of the parsed
  report is that of the last \<open>Firmware Version:\<close> line, wherever it stands.
\<close>

theorem identity_fields_in_any_state:
  "((p, k) \<in> set identity_prefixes \<and> starts_with p (rtrim (ltrim line)) \<longrightarrow>
      scan_line st line =
        Inr (st\<lparr>kv := map_assign k (ltrim (rtrim (drop (length p) (rtrim (ltrim line))))) (kv st)\<rparr>))
   \<and> (getlines s = pre @ line # post
        \<and> starts_with ''Firmware Version:'' (rtrim (ltrim line))
        \<and> (\<forall>l \<in> set post. \<not> starts_with ''Firmware Version:'' (rtrim (ltrim l))) \<longrightarrow>
      (\<exists>m nvme. parse_report s = Inr (m, nvme)
         \<and> map_of m ''firmware'' = Some (ltrim (rtrim (drop 17 (rtrim (ltrim line)))))))"
proof (intro conjI impI)
  assume "(p, k) \<in> set identity_prefixes \<and> starts_with p (rtrim (ltrim line))"
  then show "scan_line st line =
        Inr (st\<lparr>kv := map_assign k (ltrim (rtrim (drop (length p) (rtrim (ltrim line))))) (kv st)\<rparr>)"
    by (simp add: scan_line_identity)
next
  assume a: "getlines s = pre @ line # post
        \<and> starts_with ''Firmware Version:'' (rtrim (ltrim line))
        \<and> (\<forall>l \<in> set post. \<not> starts_with ''Firmware Version:'' (rtrim (ltrim l)))"
  obtain m nvme where p: "parse_report s = Inr (m, nvme)"
    using parse_report_Inr by blast
  then obtain st' where
    r: "report_loop \<lparr>kv = [], nvme_lines = [], in_nvme = False\<rparr> (pre @ line # post) = Inr st'"
    and m: "m = kv st'"
    using a by (auto simp: parse_report_def split: sum.splits)
  from a report_loop_last_firmware [OF _ _ r]
  have "map_of (kv st') ''firmware'' = Some (ltrim (rtrim (drop 17 (rtrim (ltrim line)))))"
    by simp
  with p m show "\<exists>m nvme. parse_report s = Inr (m, nvme)
         \<and> map_of m ''firmware'' = Some (ltrim (rtrim (drop 17 (rtrim (ltrim line)))))"
    by simp
qed

text \<open>
  C1 as stated fails: the \<open>Firmware Version: 9.9.9\<close> of \<open>boundary_report\<close> stands
  between the marker and the terminator, and it replaces the firmware of the header.
\<close>

theorem firmware_inside_nvme_counterexample:
  "parse_report boundary_report =
     Inr ([(''firmware'', ''9.9.9'')],
          [(''temperature'', \<lparr>raw = ''42 Celsius'', unit = ''Celsius'', has_num = True, num = 42\<rparr>)])"
  by code_simp

theorem identity_fields_in_any_state_witness:
  "scan_line \<lparr>kv = [(''firmware'', ''1B4QFXO7'')], nvme_lines = [''Temperature: 42 Celsius''], in_nvme = True\<rparr>
     ''Firmware Version: 9.9.9''
   = Inr \<lparr>kv = [(''firmware'', ''9.9.9'')], nvme_lines = [''Temperature: 42 Celsius''], in_nvme = True\<rparr>
   \<and> (\<exists>m nvme. parse_report boundary_report = Inr (m, nvme) \<and> map_of m ''firmware'' = Some ''9.9.9'')"
proof -
  let ?pre = "[''Firmware Version: 1B4QFXO7'', ''SMART/Health Information (NVMe Log 0x02)'', ''Temperature: 42 Celsius'']"
  let ?line = "''Firmware Version: 9.9.9''"
  let ?post = "[''Error Information (NVMe Log 0x01, 16 of 64 entries)'']"
  let ?st = "\<lparr>kv = [(''firmware'', ''1B4QFXO7'')], nvme_lines = [''Temperature: 42 Celsius''], in_nvme = True\<rparr>"
  have g: "getlines boundary_report = ?pre @ ?line # ?post"
    by code_simp
  have f: "starts_with ''Firmware Version:'' (rtrim (ltrim ?line))"
    by code_simp
  have n: "\<forall>l \<in> set ?post. \<not> starts_with ''Firmware Version:'' (rtrim (ltrim l))"
    by code_simp
  have v: "ltrim (rtrim (drop 17 (rtrim (ltrim ?line)))) = ''9.9.9''"
    by code_simp
  have i: "(''Firmware Version:'', ''firmware'') \<in> set identity_prefixes"
    by (simp add: identity_prefixes_def)
  have l: "length ''Firmware Version:'' = 17"
    by simp
  from identity_fields_in_any_state [of "''Firmware Version:''" "''firmware''" ?line ?st] i f
  have "scan_line ?st ?line =
          Inr (?st\<lparr>kv := map_assign ''firmware''
                 (ltrim (rtrim (drop (length ''Firmware Version:'') (rtrim (ltrim ?line))))) (kv ?st)\<rparr>)"
    by blast
  then have 1: "scan_line ?st ?line =
          Inr \<lparr>kv = [(''firmware'', ''9.9.9'')], nvme_lines = [''Temperature: 42 Celsius''], in_nvme = True\<rparr>"
    by (simp only: l v) simp
  from identity_fields_in_any_state [of _ _ ?line _ boundary_report ?pre ?post] g f n
  have "\<exists>m nvme. parse_report boundary_report = Inr (m, nvme)
         \<and> map_of m ''firmware'' = Some (ltrim (rtrim (drop 17 (rtrim (ltrim ?line)))))"
    by blast
  then have 2: "\<exists>m nvme. parse_report boundary_report = Inr (m, nvme) \<and> map_of m ''firmware'' = Some ''9.9.9''"
    by (simp only: v)
  from 1 2 show ?thesis by blast
qed

section \<open>Entries of the NVMe map\<close>

lemma nvme_loop_append:
  "nvme_loop out (xs @ ys) = (case nvme_loop out xs of Inl e \<Rightarrow> Inl e | Inr out' \<Rightarrow> nvme_loop out' ys)"
  by (induction xs arbitrary: out) (auto split: sum.splits)

lemma raw_try_stoll: "raw (try_stoll f n) = raw f"
  by (simp add: try_stoll_def split: sum.splits)

lemma raw_decompose: "raw (decompose v) = v"
  by (simp add: decompose_def Let_def raw_try_stoll)

lemma set_map_assign: "set (map_assign k v m) \<subseteq> insert (k, v) (set m)"
  by (induction m) (auto split: if_splits)

lemma nvme_line_colon:
  "CHR '':'' \<notin> set key \<Longrightarrow>
   nvme_line out (key @ CHR '':'' # v) = Inr (map_assign (normalize_key (trim key)) (decompose (trim v)) out)"
  by (simp add: nvme_line_eq find_char_append)

lemma nvme_loop_entries:
  "nvme_loop out ls = Inr m \<Longrightarrow> (k, f) \<in> set m \<Longrightarrow>
   (k, f) \<in> set out
   \<or> (\<exists>l \<in> set ls. \<exists>p. find_char CHR '':'' l = Some p \<and> k = normalize_key (trim (take p l))
         \<and> f = decompose (trim (drop (Suc p) l)))"
proof (induction ls arbitrary: out)
  case Nil
  then show ?case by simp
next
  case (Cons l ls)
  show ?case
  proof (cases "find_char CHR '':'' l")
    case None
    with Cons.prems have "nvme_loop out ls = Inr m"
      by (simp add: nvme_line_eq)
    from Cons.IH [OF this Cons.prems(2)] show ?thesis by auto
  next
    case (Some p)
    let ?out = "map_assign (normalize_key (trim (take p l))) (decompose (trim (drop (Suc p) l))) out"
    from Some Cons.prems have "nvme_loop ?out ls = Inr m"
      by (simp add: nvme_line_eq)
    from Cons.IH [OF this Cons.prems(2)] set_map_assign [of "normalize_key (trim (take p l))" _ out] Some
    show ?thesis by auto
  qed
qed

lemma nvme_loop_other_keys:
  "nvme_loop out ls = Inr m \<Longrightarrow>
   \<forall>l \<in> set ls. \<forall>p. find_char CHR '':'' l = Some p \<longrightarrow> normalize_key (trim (take p l)) \<noteq> k \<Longrightarrow>
   map_of m k = map_of out k"
proof (induction ls arbitrary: out)
  case Nil
  then show ?case by simp
next
  case (Cons l ls)
  show ?case
  proof (cases "find_char CHR '':'' l")
    case None
    with Cons.prems have "nvme_loop out ls = Inr m"
      by (simp add: nvme_line_eq)
    from Cons.IH [OF this] Cons.prems(2) show ?thesis by simp
  next
    case (Some p)
    let ?out = "map_assign (normalize_key (trim (take p l))) (decompose (trim (drop (Suc p) l))) out"
    from Some Cons.prems have "nvme_loop ?out ls = Inr m"
      by (simp add: nvme_line_eq)
    from Cons.IH [OF this] Cons.prems(2) have "map_of m k = map_of ?out k"
      by simp
    moreover have "normalize_key (trim (take p l)) \<noteq> k"
      using Cons.prems(2) Some by simp
    ultimately show ?thesis
      by (simp add: map_of_map_assign)
  qed
qed

lemma nvme_loop_keeps_keys:
  "nvme_loop out ls = Inr m \<Longrightarrow> map_of out k = Some f \<Longrightarrow> \<exists>f'. map_of m k = Some f'"
proof (induction ls arbitrary: out f)
  case Nil
  then show ?case by simp
next
  case (Cons l ls)
  show ?case
  proof (cases "find_char CHR '':'' l")
    case None
    with Cons.prems have "nvme_loop out ls = Inr m"
      by (simp add: nvme_line_eq)
    from Cons.IH [OF this Cons.prems(2)] show ?thesis .
  next
    case (Some p)
    let ?out = "map_assign (normalize_key (trim (take p l))) (decompose (trim (drop (Suc p) l))) out"
    from Some Cons.prems have r: "nvme_loop ?out ls = Inr m"
      by (simp add: nvme_line_eq)
    obtain f1 where "map_of ?out k = Some f1"
      using Cons.prems(2) by (cases "normalize_key (trim (take p l)) = k") (simp_all add: map_of_map_assign)
    from Cons.IH [OF r this] show ?thesis .
  qed
qed

text \<open>
  C4, as the code has it. Every line of the NVMe block with a colon, wherever it
  stands in the block, gives an entry under its normalized key, the line with an
  empty value too. The entry of a key is that of the last line with this key: its
  \<open>raw\<close> is the trimmed text after the first colon of that line, empty when that text
  is. And the \<open>raw\<close> of every entry of the map is the trimmed text after the first
  colon of one of the lines.
\<close>

theorem nvme_entry_for_every_colon_line:
  "(CHR '':'' \<notin> set key \<longrightarrow>
      (\<exists>m. parse_nvme_section (pre @ (key @ CHR '':'' # v) # post) = Inr m
         \<and> (\<exists>f. map_of m (normalize_key (trim key)) = Some f)
         \<and> ((\<forall>l \<in> set post. \<forall>p. find_char CHR '':'' l = Some p \<longrightarrow>
                 normalize_key (trim (take p l)) \<noteq> normalize_key (trim key)) \<longrightarrow>
             map_of m (normalize_key (trim key)) = Some (decompose (trim v))
             \<and> raw (decompose (trim v)) = trim v)))
   \<and> (parse_nvme_section ls = Inr m' \<and> (k, f') \<in> set m' \<longrightarrow>
      (\<exists>l \<in> set ls. \<exists>p. find_char CHR '':'' l = Some p \<and> k = normalize_key (trim (take p l))
         \<and> raw f' = trim (drop (Suc p) l)))"
proof (intro conjI impI)
  assume k: "CHR '':'' \<notin> set key"
  let ?k = "normalize_key (trim key)"
  obtain m1 where m1: "nvme_loop [] pre = Inr m1"
    using nvme_loop_total by blast
  let ?m2 = "map_assign ?k (decompose (trim v)) m1"
  obtain m where m: "nvme_loop ?m2 post = Inr m"
    using nvme_loop_total by blast
  have p: "parse_nvme_section (pre @ (key @ CHR '':'' # v) # post) = Inr m"
    using m1 m by (simp add: parse_nvme_section_def nvme_loop_append nvme_line_colon [OF k])
  have 2: "map_of ?m2 ?k = Some (decompose (trim v))"
    by (simp add: map_of_map_assign)
  have a: "\<exists>f. map_of m ?k = Some f"
    using nvme_loop_keeps_keys [OF m 2] .
  have b: "map_of m ?k = Some (decompose (trim v)) \<and> raw (decompose (trim v)) = trim v"
    if "\<forall>l \<in> set post. \<forall>p. find_char CHR '':'' l = Some p \<longrightarrow> normalize_key (trim (take p l)) \<noteq> ?k"
    using nvme_loop_other_keys [OF m that] 2 by (simp add: raw_decompose)
  from p a b show "\<exists>m. parse_nvme_section (pre @ (key @ CHR '':'' # v) # post) = Inr m
         \<and> (\<exists>f. map_of m ?k = Some f)
         \<and> ((\<forall>l \<in> set post. \<forall>p. find_char CHR '':'' l = Some p \<longrightarrow>
                 normalize_key (trim (take p l)) \<noteq> ?k) \<longrightarrow>
             map_of m ?k = Some (decompose (trim v)) \<and> raw (decompose (trim v)) = trim v)"
    by blast
next
  assume "parse_nvme_section ls = Inr m' \<and> (k, f') \<in> set m'"
  then have "nvme_loop [] ls = Inr m'" "(k, f') \<in> set m'"
    by (simp_all add: parse_nvme_section_def)
  from nvme_loop_entries [OF this]
  obtain l p where "l \<in> set ls" "find_char CHR '':'' l = Some p"
    "k = normalize_key (trim (take p l))" "f' = decompose (trim (drop (Suc p) l))"
    by auto
  then show "\<exists>l \<in> set ls. \<exists>p. find_char CHR '':'' l = Some p \<and> k = normalize_key (trim (take p l))
         \<and> raw f' = trim (drop (Suc p) l)"
    by (intro bexI [of _ l] exI [of _ p]) (simp_all add: raw_decompose)
qed

text \<open>
  C4 as stated fails: a line of the NVMe block with nothing after the colon gives an
  entry whose \<open>raw\<close> is empty.
\<close>

theorem empty_value_entry_counterexample:
  "parse_report (''SMART/Health Information (NVMe Log 0x02)'' @ [nl] @ ''Thermal Temp. 1 Transition Count:   '' @ [nl])
   = Inr ([], [(''thermal_temp._1_transition_count'', \<lparr>raw = [], unit = [], has_num = False, num = 0\<rparr>)])"
  by code_simp

theorem nvme_entry_for_every_colon_line_witness:
  "(\<exists>m. parse_nvme_section [''Vendor Note:'', ''Temperature: 42 Celsius''] = Inr m
       \<and> map_of m ''vendor_note'' = Some \<lparr>raw = [], unit = [], has_num = False, num = 0\<rparr>)
   \<and> (\<exists>l \<in> set [''Vendor Note:'']. \<exists>p. find_char CHR '':'' l = Some p
         \<and> ''vendor_note'' = normalize_key (trim (take p l)) \<and> [] = trim (drop (Suc p) l))"
proof -
  let ?f = "\<lparr>raw = [], unit = [], has_num = False, num = 0\<rparr>"
  have c: "CHR '':'' \<notin> set ''Vendor Note''"
    by simp
  have k: "normalize_key (trim ''Vendor Note'') = ''vendor_note''"
    by code_simp
  have d: "decompose (trim []) = ?f"
    by code_simp
  have n: "\<forall>l \<in> set [''Temperature: 42 Celsius'']. \<forall>p. find_char CHR '':'' l = Some p \<longrightarrow>
             normalize_key (trim (take p l)) \<noteq> normalize_key (trim ''Vendor Note'')"
  proof -
    have "find_char CHR '':'' ''Temperature: 42 Celsius'' = Some 11"
      by code_simp
    moreover have "normalize_key (trim (take 11 ''Temperature: 42 Celsius'')) \<noteq> ''vendor_note''"
      by code_simp
    ultimately show ?thesis
      by (simp add: k)
  qed
  from nvme_entry_for_every_colon_line
    [of "''Vendor Note''" "[]" "[]" "[''Temperature: 42 Celsius'']"] c n
  have "\<exists>m. parse_nvme_section ([] @ (''Vendor Note'' @ CHR '':'' # []) # [''Temperature: 42 Celsius'']) = Inr m
         \<and> map_of m (normalize_key (trim ''Vendor Note'')) = Some (decompose (trim []))"
    by blast
  then have 1: "\<exists>m. parse_nvme_section [''Vendor Note:'', ''Temperature: 42 Celsius''] = Inr m
       \<and> map_of m ''vendor_note'' = Some ?f"
    by (simp add: k d)
  have p: "parse_nvme_section [''Vendor Note:''] = Inr [(''vendor_note'', ?f)]"
    by code_simp
  have e: "(''vendor_note'', ?f) \<in> set [(''vendor_note'', ?f)]"
    by simp
  from nvme_entry_for_every_colon_line
    [of _ _ _ _ "[''Vendor Note:'']" "[(''vendor_note'', ?f)]" "''vendor_note''" ?f] p e
  have "\<exists>l \<in> set [''Vendor Note:'']. \<exists>p. find_char CHR '':'' l = Some p
         \<and> ''vendor_note'' = normalize_key (trim (take p l)) \<and> raw ?f = trim (drop (Suc p) l)"
    by blast
  then have 2: "\<exists>l \<in> set [''Vendor Note:'']. \<exists>p. find_char CHR '':'' l = Some p
         \<and> ''vendor_note'' = normalize_key (trim (take p l)) \<and> [] = trim (drop (Suc p) l)"
    by simp
  from 1 2 show ?thesis by blast
qed

section \<open>Value decomposition\<close>

lemma isdigit_not_sign: "isdigit c \<Longrightarrow> c \<noteq> CHR ''-'' \<and> c \<noteq> CHR ''+'' \<and> \<not> isspace c"
  by (auto simp: isdigit_def isspace_def less_eq_char_def)

lemma sign_of_cases: "sign_of s = [] \<or> sign_of s = ''-'' \<or> sign_of s = ''+''"
  by (auto simp: sign_of_def split: list.splits)

lemma sign_of_digits: "list_all isdigit ds \<Longrightarrow> sign_of ds = []"
  by (cases ds) (auto simp: sign_of_def dest: isdigit_not_sign)

lemma ltrim_digits: "list_all isdigit ds \<Longrightarrow> ltrim ds = ds"
  by (cases ds) (auto dest: isdigit_not_sign)

lemma takeWhile_all: "list_all P xs \<Longrightarrow> takeWhile P xs = xs"
  by (induction xs) auto

lemma stoll_token:
  assumes sg: "sg = [] \<or> sg = ''-'' \<or> sg = ''+''" and ds: "list_all isdigit ds"
  shows "stoll (sg @ ds) =
           (case int64_of_token (sg @ ds) of
              Some v \<Rightarrow> Inr v
            | None \<Rightarrow> Inl (if ds = [] then Invalid_argument else Out_of_range))"
proof -
  have s: "sign_of (sg @ ds) = sg"
    using sg sign_of_digits [OF ds] by (auto simp: sign_of_def)
  have l: "ltrim (sg @ ds) = sg @ ds"
    using sg ltrim_digits [OF ds] by (auto simp: isspace_def)
  have d: "takeWhile isdigit ds = ds"
    using ds by (rule takeWhile_all)
  have "stoll (sg @ ds) =
          (let v = (if sg = ''-'' then - dec_val ds else dec_val ds)
           in if ds = [] then Inl Invalid_argument
              else if v < LLONG_MIN \<or> LLONG_MAX < v then Inl Out_of_range
              else Inr v)"
    unfolding stoll_def Let_def l s by (simp add: d)
  moreover have "int64_of_token (sg @ ds) =
          (let v = (if sg = ''-'' then - dec_val ds else dec_val ds)
           in if ds \<noteq> [] then (if - (2 ^ 63) \<le> v \<and> v < 2 ^ 63 then Some v else None)
              else None)"
    unfolding int64_of_token_def Let_def s using ds by auto
  ultimately show ?thesis
    by (auto simp: Let_def LLONG_MIN_def LLONG_MAX_def)
qed

lemma strip_commas_num: "list_all isdigit (strip_commas (takeWhile num_char xs))"
  by (induction xs) (auto simp: strip_commas_def num_char_def)

lemma token_shape:
  "num_unit_regex_search val \<noteq> [] \<Longrightarrow>
   \<exists>sg ds. (sg = [] \<or> sg = ''-'' \<or> sg = ''+'') \<and> list_all isdigit ds
     \<and> strip_commas (sub_str (num_unit_regex_search val) 1) = sg @ ds"
proof -
  assume a: "num_unit_regex_search val \<noteq> []"
  let ?r1 = "dropWhile isspace val"
  let ?sg = "sign_of ?r1"
  let ?ds = "takeWhile num_char (drop (length ?sg) ?r1)"
  have "sub_str (num_unit_regex_search val) 1 = ?sg @ ?ds"
    using a by (simp add: num_unit_regex_search_def Let_def sub_str_def split: if_splits)
  moreover have "strip_commas (?sg @ ?ds) = ?sg @ strip_commas ?ds"
    using sign_of_cases [of ?r1] by (auto simp: strip_commas_def)
  ultimately show ?thesis
    using sign_of_cases [of ?r1] strip_commas_num by metis
qed

lemma has_num_decompose:
  "has_num (decompose val) =
     (num_unit_regex_search val \<noteq> []
      \<and> (\<exists>v. stoll (strip_commas (sub_str (num_unit_regex_search val) 1)) = Inr v))"
  by (auto simp: decompose_def Let_def try_stoll_def split: sum.splits)

lemma num_decompose:
  "num_unit_regex_search val \<noteq> [] \<Longrightarrow>
   stoll (strip_commas (sub_str (num_unit_regex_search val) 1)) = Inr v \<Longrightarrow>
   num (decompose val) = v"
  by (auto simp: decompose_def Let_def try_stoll_def split: sum.splits)

lemma stoll_range: "stoll s = Inr v \<Longrightarrow> LLONG_MIN \<le> v \<and> v \<le> LLONG_MAX"
  by (auto simp: stoll_def Let_def split: if_splits)

text \<open>
  C9. The value of a field. Without a leading numeric match there is no value. With
  one, the token without its commas is an optional sign and digits; the field has a
  value exactly when that is a number of 64 signed bits, and then it is this number.
  So an overflow and a token without a digit leave the value absent.
\<close>

theorem value_of_field:
  "(num_unit_regex_search val = [] \<longrightarrow> \<not> has_num (decompose val))
   \<and> (num_unit_regex_search val \<noteq> [] \<longrightarrow>
        (case int64_of_token (strip_commas (sub_str (num_unit_regex_search val) 1)) of
           None \<Rightarrow> \<not> has_num (decompose val)
         | Some v \<Rightarrow> has_num (decompose val) \<and> num (decompose val) = v))
   \<and> (has_num (decompose val) \<longrightarrow>
        LLONG_MIN \<le> num (decompose val) \<and> num (decompose val) \<le> LLONG_MAX)"
proof -
  let ?t = "strip_commas (sub_str (num_unit_regex_search val) 1)"
  have 1: "\<not> has_num (decompose val)" if "num_unit_regex_search val = []"
    using that by (simp add: has_num_decompose)
  have 2: "case int64_of_token ?t of
             None \<Rightarrow> \<not> has_num (decompose val)
           | Some v \<Rightarrow> has_num (decompose val) \<and> num (decompose val) = v"
    if a: "num_unit_regex_search val \<noteq> []"
  proof -
    obtain sg ds where t: "sg = [] \<or> sg = ''-'' \<or> sg = ''+''" "list_all isdigit ds" "?t = sg @ ds"
      using token_shape [OF a] by blast
    show ?thesis
    proof (cases "int64_of_token ?t")
      case None
      then have "\<exists>e. stoll ?t = Inl e"
        using stoll_token [OF t(1,2)] t(3) by simp
      then show ?thesis
        using None by (auto simp: has_num_decompose)
    next
      case (Some v)
      then have "stoll ?t = Inr v"
        using stoll_token [OF t(1,2)] t(3) by simp
      then show ?thesis
        using Some a num_decompose [OF a] by (simp add: has_num_decompose)
    qed
  qed
  have 3: "LLONG_MIN \<le> num (decompose val) \<and> num (decompose val) \<le> LLONG_MAX"
    if "has_num (decompose val)"
  proof -
    from that obtain v where "num_unit_regex_search val \<noteq> []" "stoll ?t = Inr v"
      by (auto simp: has_num_decompose)
    then show ?thesis
      using num_decompose stoll_range by metis
  qed
  from 1 2 3 show ?thesis
    by blast
qed

theorem value_of_field_witness:
  "\<not> has_num (decompose ''Unknown'')
   \<and> \<not> has_num (decompose ''9,223,372,036,854,775,808 B'')
   \<and> has_num (decompose ''-1,024 [x]'') \<and> num (decompose ''-1,024 [x]'') = - 1024
   \<and> LLONG_MIN \<le> num (decompose ''-1,024 [x]'') \<and> num (decompose ''-1,024 [x]'') \<le> LLONG_MAX"
proof -
  have a: "num_unit_regex_search ''Unknown'' = []"
    by code_simp
  have b: "num_unit_regex_search ''9,223,372,036,854,775,808 B'' \<noteq> []"
    "int64_of_token (strip_commas (sub_str (num_unit_regex_search ''9,223,372,036,854,775,808 B'') 1)) = None"
    by code_simp+
  have c: "num_unit_regex_search ''-1,024 [x]'' \<noteq> []"
    "int64_of_token (strip_commas (sub_str (num_unit_regex_search ''-1,024 [x]'') 1)) = Some (- 1024)"
    by code_simp+
  from value_of_field [of "''Unknown''"] a have 1: "\<not> has_num (decompose ''Unknown'')"
    by blast
  from value_of_field [of "''9,223,372,036,854,775,808 B''"] b
  have 2: "\<not> has_num (decompose ''9,223,372,036,854,775,808 B'')"
    by simp
  from value_of_field [of "''-1,024 [x]''"] c
  have 3: "has_num (decompose ''-1,024 [x]'') \<and> num (decompose ''-1,024 [x]'') = - 1024"
    by simp
  from value_of_field [of "''-1,024 [x]''"] 3
  have 4: "LLONG_MIN \<le> num (decompose ''-1,024 [x]'') \<and> num (decompose ''-1,024 [x]'') \<le> LLONG_MAX"
    by blast
  from 1 2 3 4 show ?thesis by blast
qed

lemma num_unit_0x:
  "num_unit_regex_search (''0x'' @ r) =
     [Some (''0x'' @ takeWhile unit_char r), Some ''0'', Some (CHR ''x'' # takeWhile unit_char r)]"
  by (simp add: num_unit_regex_search_def Let_def isspace_def sign_of_def num_char_def isdigit_def
      unit_char_def islower_def isupper_def)

lemma stoll_0: "stoll ''0'' = Inr 0"
  by (simp add: stoll_def Let_def isspace_def sign_of_def isdigit_def dec_val_def digit_val_def
      LLONG_MIN_def LLONG_MAX_def)

lemma decompose_0x:
  "bracket_regex_search (''0x'' @ r) = [] \<Longrightarrow>
   decompose (''0x'' @ r) =
     \<lparr>raw = ''0x'' @ r, unit = CHR ''x'' # takeWhile unit_char r, has_num = True, num = 0\<rparr>"
  by (simp add: decompose_def Let_def num_unit_0x sub_str_def strip_commas_def try_stoll_def stoll_0
      del: bracket_regex_search.simps append.simps)

text \<open>
  C3, as the code has it. For a value that starts with \<open>0x\<close> and has no bracketed
  annotation, the leading \<open>0\<close> is the numeric match and the \<open>x\<close> starts the unit token:
  the field keeps the text as \<open>raw\<close>, its value is 0, and its unit is \<open>x\<close> with the
  letters, \<open>%\<close> and \<open>.\<close> that follow it directly.
\<close>

theorem hex_value_field:
  assumes "CHR '':'' \<notin> set key" and "trim v = ''0x'' @ r"
    and "bracket_regex_search (''0x'' @ r) = []"
  shows "nvme_line out (key @ CHR '':'' # v) =
     Inr (map_assign (normalize_key (trim key))
            \<lparr>raw = ''0x'' @ r, unit = CHR ''x'' # takeWhile unit_char r, has_num = True, num = 0\<rparr> out)"
proof -
  have "decompose (trim v) =
          \<lparr>raw = ''0x'' @ r, unit = CHR ''x'' # takeWhile unit_char r, has_num = True, num = 0\<rparr>"
    unfolding assms(2) using assms(3) by (rule decompose_0x)
  with nvme_line_colon [OF assms(1), of out v] show ?thesis
    by simp
qed

theorem hex_value_field_witness:
  "nvme_line [] ''Critical Warning:                   0x00'' =
     Inr [(''critical_warning'', \<lparr>raw = ''0x00'', unit = ''x'', has_num = True, num = 0\<rparr>)]"
proof -
  have c: "CHR '':'' \<notin> set ''Critical Warning''"
    by simp
  have t: "trim ''                   0x00'' = ''0x'' @ ''00''"
    by code_simp
  have b: "bracket_regex_search (''0x'' @ ''00'') = []"
    by code_simp
  have k: "normalize_key (trim ''Critical Warning'') = ''critical_warning''"
    by code_simp
  from hex_value_field [OF c t b, of "[]"] show ?thesis
    by (simp add: k unit_char_def isupper_def islower_def)
qed

text \<open>
  C3 as stated fails: for \<open>0x00\<close> the field has the value 0 and the unit \<open>x\<close>.
\<close>

theorem hex_value_counterexample:
  "parse_nvme_section [''Critical Warning:                   0x00''] =
     Inr [(''critical_warning'', \<lparr>raw = ''0x00'', unit = ''x'', has_num = True, num = 0\<rparr>)]
   \<and> \<not> (\<not> has_num (decompose ''0x00'') \<and> unit (decompose ''0x00'') = [])"
  by code_simp

text \<open>
  C2. The code at the line of the spec's own example: the group of the bracket
  pattern is \<open>632 GB\<close>, but the unit of the field is the numeric token \<open>1,234,567\<close>,
  read from the \<open>smatch\<close> after the second search has overwritten it.
\<close>

theorem bracket_unit_is_numeric_token:
  "parse_nvme_section [''Data Units Read:                    1,234,567 [632 GB]''] =
     Inr [(''data_units_read'',
           \<lparr>raw = ''1,234,567 [632 GB]'', unit = ''1,234,567'', has_num = True, num = 1234567\<rparr>)]
   \<and> sub_str (bracket_regex_search ''1,234,567 [632 GB]'') 1 = ''632 GB''"
  by code_simp

section \<open>Exit status and the help option\<close>

lemma scan_args_None_iff:
  "scan_args opts args = None \<longleftrightarrow>
     ''-h'' \<in> set (option_args args) \<or> ''--help'' \<in> set (option_args args)"
  by (induction opts args rule: scan_args.induct) auto

text \<open>
  C10. A help option, that is \<open>-h\<close> or \<open>--help\<close> among the arguments that the loop reads
  as options, makes the program print the usage line on standard output and return
  0 inside the loop, before \<open>smartctl\<close> is looked for: the outcome is the same in
  every environment, with \<open>smartctl\<close> or without.
\<close>

theorem help_before_discovery:
  "h = ''-h'' \<or> h = ''--help'' \<Longrightarrow> h \<in> set (option_args args) \<Longrightarrow>
   main env args = \<lparr>to_cout = usage, to_cerr = [], ended = Exit 0\<rparr>"
proof -
  assume "h = ''-h'' \<or> h = ''--help''" and "h \<in> set (option_args args)"
  then have "scan_args init_options args = None"
    by (auto simp: scan_args_None_iff)
  then show ?thesis
    by (simp add: main_def)
qed

theorem help_before_discovery_witness:
  "find_smartctl (\<lambda>c. []) = []
   \<and> main (\<lambda>c. []) [''--json'', ''--device'', ''--device'', ''--help'', ''--list'']
       = \<lparr>to_cout = usage, to_cerr = [], ended = Exit 0\<rparr>
   \<and> main (\<lambda>c. []) [''-h''] = \<lparr>to_cout = usage, to_cerr = [], ended = Exit 0\<rparr>"
proof -
  have o: "''--help'' \<in> set (option_args [''--json'', ''--device'', ''--device'', ''--help'', ''--list''])"
    by simp
  have 1: "main (\<lambda>c. []) [''--json'', ''--device'', ''--device'', ''--help'', ''--list'']
       = \<lparr>to_cout = usage, to_cerr = [], ended = Exit 0\<rparr>"
    by (rule help_before_discovery [OF _ o]) simp
  have h: "''-h'' \<in> set (option_args [''-h''])"
    by simp
  have 2: "main (\<lambda>c. []) [''-h''] = \<lparr>to_cout = usage, to_cerr = [], ended = Exit 0\<rparr>"
    by (rule help_before_discovery [OF _ h]) simp
  from 1 2 show ?thesis
    by (simp add: find_smartctl_def)
qed

text \<open>
  The operand of \<open>--device\<close> is not an option: in \<open>--device -h\<close> the device is \<open>-h\<close>, no
  usage line is printed, and the run goes on to look for \<open>smartctl\<close>.
\<close>

lemma device_operand_is_no_option:
  "option_args [''--device'', ''-h''] = [''--device'']
   \<and> main (\<lambda>c. []) [''--device'', ''-h''] =
       \<lparr>to_cout = [], to_cerr = ''smartctl not found. Install smartmontools.'' @ [nl], ended = Exit 2\<rparr>"
  by (simp add: main_def find_smartctl_def init_options_def)

lemma scan_args_plain:
  "''--list'' \<notin> set args \<Longrightarrow> ''--device'' \<notin> set args \<Longrightarrow> ''-h'' \<notin> set args \<Longrightarrow>
   ''--help'' \<notin> set args \<Longrightarrow>
   \<exists>opts'. scan_args opts args = Some opts' \<and> list_mode opts' = list_mode opts \<and> device opts' = device opts"
proof (induction args arbitrary: opts)
  case Nil
  show ?case by simp
next
  case (Cons a rest)
  then have "\<exists>opts'. scan_args o1 rest = Some opts' \<and> list_mode opts' = list_mode o1 \<and> device opts' = device o1" for o1
    by simp
  from this [of "opts\<lparr>json_out := True\<rparr>"] this [of "opts\<lparr>include_raw := True\<rparr>"] this [of opts] Cons.prems
  show ?case
    by auto
qed

lemma parse_report_unrecognized:
  "\<forall>l \<in> set (getlines s). \<not> recognized (rtrim (ltrim l)) \<Longrightarrow> parse_report s = Inr ([], [])"
  by (simp add: parse_report_def parse_nvme_section_def report_loop_unrecognized)

lemma ended_main_Some:
  assumes "scan_args init_options args = Some opts"
  shows "ended (main env args) =
           (if find_smartctl env = [] then Exit 2
            else if list_mode opts then Exit 0
            else if device opts = [] then Exit 2
            else (case parse_report (run_smartctl env (find_smartctl env) (device opts)) of
                    Inl e \<Rightarrow> Uncaught e | Inr r \<Rightarrow> Exit 0))"
  using assms by (simp add: main_def Let_def split: sum.splits prod.splits)

text \<open>
  C6, as the code has it. When the loop over the arguments meets a help option the
  status is 0. Otherwise the status is 2 exactly when \<open>smartctl\<close> is not found (with
  the message on standard error and nothing on standard output) or when list mode is
  off and the device is empty, as it is when neither \<open>--device\<close> nor \<open>--list\<close> is
  given. With \<open>smartctl\<close> found the status is 0 in list mode, and with a device it is 0
  whenever the report parser returns, as it does for a report without any recognized
  line and for the empty report.
\<close>

theorem exit_status_of_main:
  "(scan_args init_options args = None \<longrightarrow> ended (main env args) = Exit 0)
   \<and> (scan_args init_options args = Some opts \<longrightarrow>
        (ended (main env args) = Exit 2
           \<longleftrightarrow> find_smartctl env = [] \<or> (\<not> list_mode opts \<and> device opts = []))
        \<and> (find_smartctl env = [] \<longrightarrow>
             to_cerr (main env args) = ''smartctl not found. Install smartmontools.'' @ [nl]
             \<and> to_cout (main env args) = [])
        \<and> (find_smartctl env \<noteq> [] \<and> list_mode opts \<longrightarrow> ended (main env args) = Exit 0)
        \<and> (find_smartctl env \<noteq> [] \<and> \<not> list_mode opts \<and> device opts \<noteq> []
             \<and> parse_report (run_smartctl env (find_smartctl env) (device opts)) = Inr r \<longrightarrow>
             ended (main env args) = Exit 0)
        \<and> (find_smartctl env \<noteq> [] \<and> \<not> list_mode opts \<and> device opts \<noteq> []
             \<and> (\<forall>l \<in> set (getlines (run_smartctl env (find_smartctl env) (device opts))).
                   \<not> recognized (rtrim (ltrim l))) \<longrightarrow>
             ended (main env args) = Exit 0))
   \<and> (''--list'' \<notin> set args \<and> ''--device'' \<notin> set args \<and> ''-h'' \<notin> set args \<and> ''--help'' \<notin> set args \<longrightarrow>
        ended (main env args) = Exit 2)"
proof -
  have 1: "ended (main env args) = Exit 0" if "scan_args init_options args = None"
    using that by (simp add: main_def)
  have 2: "ended (main env args) = Exit 2
             \<longleftrightarrow> find_smartctl env = [] \<or> (\<not> list_mode opts \<and> device opts = [])"
    if "scan_args init_options args = Some opts"
    by (simp add: ended_main_Some [OF that] split: sum.splits)
  have 3: "to_cerr (main env args) = ''smartctl not found. Install smartmontools.'' @ [nl]
        \<and> to_cout (main env args) = []"
    if "scan_args init_options args = Some opts" "find_smartctl env = []"
    using that by (simp add: main_def)
  have 4: "ended (main env args) = Exit 0"
    if "scan_args init_options args = Some opts" "find_smartctl env \<noteq> [] \<and> list_mode opts"
    using that(2) by (simp add: ended_main_Some [OF that(1)])
  have 5: "ended (main env args) = Exit 0"
    if "scan_args init_options args = Some opts"
      "find_smartctl env \<noteq> [] \<and> \<not> list_mode opts \<and> device opts \<noteq> []
         \<and> parse_report (run_smartctl env (find_smartctl env) (device opts)) = Inr r"
    using that(2) by (simp add: ended_main_Some [OF that(1)])
  have 6: "ended (main env args) = Exit 0"
    if "scan_args init_options args = Some opts"
      "find_smartctl env \<noteq> [] \<and> \<not> list_mode opts \<and> device opts \<noteq> []
         \<and> (\<forall>l \<in> set (getlines (run_smartctl env (find_smartctl env) (device opts))).
               \<not> recognized (rtrim (ltrim l)))"
    using that(2) by (simp add: ended_main_Some [OF that(1)] parse_report_unrecognized)
  have 7: "ended (main env args) = Exit 2"
    if a: "''--list'' \<notin> set args \<and> ''--device'' \<notin> set args \<and> ''-h'' \<notin> set args \<and> ''--help'' \<notin> set args"
  proof -
    obtain o1 where "scan_args init_options args = Some o1" "list_mode o1 = list_mode init_options"
      "device o1 = device init_options"
      using a scan_args_plain [of args init_options] by blast
    then show ?thesis
      by (simp add: ended_main_Some init_options_def)
  qed
  from 1 2 3 4 5 6 7 show ?thesis
    by blast
qed

theorem exit_status_of_main_witness:
  "ended (main (\<lambda>c. []) [''--device'', ''/dev/sda'']) = Exit 2
   \<and> to_cerr (main (\<lambda>c. []) [''--device'', ''/dev/sda'']) = ''smartctl not found. Install smartmontools.'' @ [nl]
   \<and> ended (main host_with_smartctl [''--json'']) = Exit 2
   \<and> ended (main host_with_smartctl [''--device'', ''/dev/sda'']) = Exit 0
   \<and> ended (main host_with_smartctl [''--list'']) = Exit 0
   \<and> ended (main host_with_smartctl [''--help'']) = Exit 0"
proof -
  let ?d = "\<lparr>list_mode = False, device = ''/dev/sda'', json_out = False, include_raw = False\<rparr>"
  let ?l = "\<lparr>list_mode = True, device = [], json_out = False, include_raw = False\<rparr>"
  have s: "scan_args init_options [''--device'', ''/dev/sda''] = Some ?d"
    by (simp add: init_options_def)
  have sl: "scan_args init_options [''--list''] = Some ?l"
    by (simp add: init_options_def)
  have sh: "scan_args init_options [''--help''] = None"
    by (simp add: init_options_def)
  have f: "find_smartctl (\<lambda>c. []) = []"
    by (simp add: find_smartctl_def)
  have h: "find_smartctl host_with_smartctl = ''/usr/sbin/smartctl''"
    by code_simp
  have e: "run_smartctl host_with_smartctl ''/usr/sbin/smartctl'' ''/dev/sda'' = []"
    by code_simp
  from exit_status_of_main [of "[''--device'', ''/dev/sda'']" "\<lambda>c. []" ?d] s f
  have 1: "ended (main (\<lambda>c. []) [''--device'', ''/dev/sda'']) = Exit 2
     \<and> to_cerr (main (\<lambda>c. []) [''--device'', ''/dev/sda'']) = ''smartctl not found. Install smartmontools.'' @ [nl]"
    by blast
  have n: "''--list'' \<notin> set [''--json''] \<and> ''--device'' \<notin> set [''--json'']
       \<and> ''-h'' \<notin> set [''--json''] \<and> ''--help'' \<notin> set [''--json'']"
    by simp
  from exit_status_of_main [of "[''--json'']" host_with_smartctl] n
  have 2: "ended (main host_with_smartctl [''--json'']) = Exit 2"
    by blast
  have u: "\<forall>l \<in> set (getlines (run_smartctl host_with_smartctl (find_smartctl host_with_smartctl) (device ?d))).
             \<not> recognized (rtrim (ltrim l))"
    by (simp add: h e getlines_def)
  have c: "find_smartctl host_with_smartctl \<noteq> [] \<and> \<not> list_mode ?d \<and> device ?d \<noteq> []"
    by (simp add: h)
  from exit_status_of_main [of "[''--device'', ''/dev/sda'']" host_with_smartctl ?d] s c u
  have 3: "ended (main host_with_smartctl [''--device'', ''/dev/sda'']) = Exit 0"
    by blast
  have r: "parse_report (run_smartctl host_with_smartctl (find_smartctl host_with_smartctl) (device ?d))
           = Inr ([], [])"
    by (simp add: h e parse_report_def parse_nvme_section_def getlines_def)
  from exit_status_of_main [of "[''--device'', ''/dev/sda'']" host_with_smartctl ?d "([], [])"] s c r
  have 3: "ended (main host_with_smartctl [''--device'', ''/dev/sda'']) = Exit 0"
    by blast
  have cl: "find_smartctl host_with_smartctl \<noteq> [] \<and> list_mode ?l"
    by (simp add: h)
  from exit_status_of_main [of "[''--list'']" host_with_smartctl ?l] sl cl
  have 4: "ended (main host_with_smartctl [''--list'']) = Exit 0"
    by blast
  from exit_status_of_main [of "[''--help'']" host_with_smartctl] sh
  have 5: "ended (main host_with_smartctl [''--help'']) = Exit 0"
    by blast
  from 1 2 3 4 5 show ?thesis by blast
qed

text \<open>
  C6 as stated fails: with a help option the status is 0, though \<open>smartctl\<close> is not
  found in the first run, and neither \<open>--device\<close> nor \<open>--list\<close> is given in both.
\<close>

theorem help_exit_counterexample:
  "find_smartctl (\<lambda>c. []) = [] \<and> ended (main (\<lambda>c. []) [''-h'']) = Exit 0
   \<and> ended (main host_with_smartctl [''--help'']) = Exit 0"
  by code_simp

section \<open>The order of the JSON members\<close>

lemma comma_join_Cons: "comma_join (x # xs) = (if xs = [] then x else x @ '','' @ comma_join xs)"
  by (cases xs) simp_all

lemma comma_join_append:
  "comma_join (xs @ ys) =
     (if xs = [] then comma_join ys else if ys = [] then comma_join xs
      else comma_join xs @ '','' @ comma_join ys)"
  by (induction xs) (auto simp: comma_join_Cons)

lemma json_kv_eq:
  "json_kv (js, first) ps =
     (if ps = [] then (js, first)
      else (js @ (if first then [] else '','') @ comma_join (map (\<lambda>(k, v). kv_member k v) ps), False))"
  by (induction ps arbitrary: js first) (auto simp: add_comma_def comma_join_Cons)

lemma json_nvme_eq:
  "json_nvme (js, f2) ns =
     (if ns = [] then (js, f2)
      else (js @ (if f2 then [] else '','') @ comma_join (map (\<lambda>(k, f). nvme_entry k f) ns), False))"
  by (induction ns arbitrary: js f2) (auto simp: comma_join_Cons)

lemma build_json_eq:
  "build_json_from_parsed m nvme incl =
     ''{'' @ comma_join (map (\<lambda>(k, v). kv_member k v) m
                        @ (if nvme \<noteq> [] then [nvme_health_member nvme] else [])
                        @ (if incl then [raw_member] else []))
     @ [nl] @ ''}'' @ [nl]"
  by (simp add: build_json_from_parsed_def json_kv_eq json_nvme_eq add_comma_def
      nvme_health_member_def comma_join_append Let_def)

lemma map_assign_fields:
  "map_assign ''firmware'' v (kv_of_fields fw mo se) = kv_of_fields (Some v) mo se"
  "map_assign ''model'' v (kv_of_fields fw mo se) = kv_of_fields fw (Some v) se"
  "map_assign ''serial'' v (kv_of_fields fw mo se) = kv_of_fields fw mo (Some v)"
  by (cases fw; cases mo; cases se; simp add: kv_of_fields_def)+

lemma scan_line_fields:
  assumes "scan_line st l = Inr st'" and "\<exists>fw mo se. kv st = kv_of_fields fw mo se"
  shows "\<exists>fw mo se. kv st' = kv_of_fields fw mo se"
proof -
  obtain v1 v2 v3 where
    "set_identity ''model'' (rtrim (ltrim l)) st = Inr (st\<lparr>kv := map_assign ''model'' v1 (kv st)\<rparr>)"
    "set_identity ''serial'' (rtrim (ltrim l)) st = Inr (st\<lparr>kv := map_assign ''serial'' v2 (kv st)\<rparr>)"
    "set_identity ''firmware'' (rtrim (ltrim l)) st = Inr (st\<lparr>kv := map_assign ''firmware'' v3 (kv st)\<rparr>)"
    using set_identity_total by meson
  with assms show ?thesis
    by (auto simp: scan_line_def Let_def map_assign_fields split: if_splits; blast)
qed

lemma report_loop_fields:
  "report_loop st ls = Inr st' \<Longrightarrow> \<exists>fw mo se. kv st = kv_of_fields fw mo se \<Longrightarrow>
   \<exists>fw mo se. kv st' = kv_of_fields fw mo se"
proof (induction ls arbitrary: st)
  case Nil
  then show ?case by simp
next
  case (Cons l ls)
  obtain st1 where s1: "scan_line st l = Inr st1"
    using scan_line_total by blast
  with Cons.prems(1) have "report_loop st1 ls = Inr st'"
    by simp
  from Cons.IH [OF this scan_line_fields [OF s1 Cons.prems(2)]] show ?case .
qed

lemma members_of_fields:
  "map (\<lambda>(k, v). kv_member k v) (kv_of_fields fw mo se) =
     identity_member ''firmware'' (kv_of_fields fw mo se)
     @ identity_member ''model'' (kv_of_fields fw mo se)
     @ identity_member ''serial'' (kv_of_fields fw mo se)"
  by (cases fw; cases mo; cases se; simp add: kv_of_fields_def identity_member_def)

lemma keys_map_assign: "fst ` set (map_assign k v m) = insert k (fst ` set m)"
  by (induction m) (force split: if_splits)+

lemma sorted_map_assign:
  "sorted_wrt (<) (map fst m) \<Longrightarrow> sorted_wrt (<) (map fst (map_assign k v m))"
proof (induction m)
  case Nil
  show ?case by simp
next
  case (Cons p m)
  obtain k' v' where p: "p = (k', v')"
    by (cases p)
  show ?case
  proof (cases "k < k'")
    case True
    with Cons.prems p show ?thesis by auto
  next
    case False
    show ?thesis
    proof (cases "k = k'")
      case True
      with Cons.prems p show ?thesis by simp
    next
      case ne: False
      with False have "k' < k" by simp
      moreover have "sorted_wrt (<) (map fst (map_assign k v m))"
        using Cons by simp
      moreover have "\<forall>x \<in> fst ` set m. k' < x"
        using Cons.prems p by auto
      ultimately show ?thesis
        using False ne p by (simp add: keys_map_assign)
    qed
  qed
qed

lemma nvme_loop_sorted:
  "nvme_loop out ls = Inr m \<Longrightarrow> sorted_wrt (<) (map fst out) \<Longrightarrow> sorted_wrt (<) (map fst m)"
proof (induction ls arbitrary: out)
  case Nil
  then show ?case by simp
next
  case (Cons l ls)
  then show ?case
    by (cases "find_char CHR '':'' l") (auto simp: nvme_line_eq sorted_map_assign)
qed

text \<open>
  C5, as the code has it. For every parsed report the JSON text is the members
  \<open>firmware\<close>, \<open>model\<close>, \<open>serial\<close> (each only if present, in this order, that of the
  keys of the map \<open>kv\<close>), then \<open>nvme_health\<close> if the NVMe map is not empty, then \<open>raw\<close>
  if raw inclusion was requested, separated by commas; inside \<open>nvme_health\<close> the keys
  stand in strictly ascending order.
\<close>

theorem json_member_order:
  assumes "parse_report s = Inr (m, nvme)"
  shows "build_json_from_parsed m nvme incl =
           ''{'' @ comma_join (identity_member ''firmware'' m @ identity_member ''model'' m
                              @ identity_member ''serial'' m
                              @ (if nvme \<noteq> [] then [nvme_health_member nvme] else [])
                              @ (if incl then [raw_member] else []))
           @ [nl] @ ''}'' @ [nl]
         \<and> sorted_wrt (<) (map fst nvme)"
proof -
  from assms obtain st where
    st: "report_loop \<lparr>kv = [], nvme_lines = [], in_nvme = False\<rparr> (getlines s) = Inr st"
    and nv: "nvme_loop [] (nvme_lines st) = Inr nvme" and m: "m = kv st"
    by (auto simp: parse_report_def parse_nvme_section_def split: sum.splits)
  have "kv \<lparr>kv = [], nvme_lines = [], in_nvme = False\<rparr> = kv_of_fields None None None"
    by (simp add: kv_of_fields_def)
  then obtain fw mo se where "m = kv_of_fields fw mo se"
    using report_loop_fields [OF st] m by blast
  then have "map (\<lambda>(k, v). kv_member k v) m =
      identity_member ''firmware'' m @ identity_member ''model'' m @ identity_member ''serial'' m"
    by (simp only: members_of_fields)
  moreover have "sorted_wrt (<) (map fst nvme)"
    using nvme_loop_sorted [OF nv] by simp
  ultimately show ?thesis
    by (simp only: build_json_eq append_assoc simp_thms)
qed

text \<open>
  C5 as stated fails: for a report with a model and a firmware the emitter writes
  \<open>firmware\<close> before \<open>model\<close>.
\<close>

theorem firmware_first_counterexample:
  "parse_report two_field_report = Inr ([(''firmware'', ''B''), (''model'', ''A'')], [])
   \<and> build_json_from_parsed [(''firmware'', ''B''), (''model'', ''A'')] [] False =
       ''{'' @ [nl] @ ''  '' @ quoted ''firmware'' @ '': '' @ quoted ''B'' @ '',''
       @ [nl] @ ''  '' @ quoted ''model'' @ '': '' @ quoted ''A'' @ [nl] @ ''}'' @ [nl]
   \<and> build_json_from_parsed [(''firmware'', ''B''), (''model'', ''A'')] [] False \<noteq>
       ''{'' @ [nl] @ ''  '' @ quoted ''model'' @ '': '' @ quoted ''A'' @ '',''
       @ [nl] @ ''  '' @ quoted ''firmware'' @ '': '' @ quoted ''B'' @ [nl] @ ''}'' @ [nl]"
  by code_simp

theorem json_member_order_witness:
  "build_json_from_parsed [(''firmware'', ''B''), (''model'', ''A'')] [] True =
     ''{'' @ kv_member ''firmware'' ''B'' @ '','' @ kv_member ''model'' ''A'' @ '','' @ raw_member
     @ [nl] @ ''}'' @ [nl]"
proof -
  have p: "parse_report two_field_report = Inr ([(''firmware'', ''B''), (''model'', ''A'')], [])"
    by code_simp
  from json_member_order [OF p, of True] show ?thesis
    by (simp add: identity_member_def)
qed

end
